theory Spec2Isabelle
  imports Main "HOL-Library.Word"
begin

unbundle bit_operations_syntax

section \<open>pwsave.py: saved BIP39 passphrases on the MicroSD card\<close>

subsection \<open>Data\<close>

text \<open>
  A Python \<open>str\<close> is a sequence of code points: \<open>len\<close> and slicing count code points,
  so a string is a list of natural numbers. \<open>ustr\<close> reads an ASCII literal.
\<close>

type_synonym pystr = "nat list"

definition ustr :: "string \<Rightarrow> pystr" where
  "ustr s = map of_char s"

text \<open>The masking character \<open>'*'\<close>.\<close>

definition star :: nat where
  "star = 42"

text \<open>One stored entry, \<open>dict(xfp=xfp, pw=bip39pw)\<close>.\<close>

record entry =
  xfp :: int
  pw :: pystr

subsection \<open>The hints of \<open>make_menu\<close> (lines 116 to 129)\<close>

text \<open>
  \<open>pws = []; for i in data: p = i.get('pw'); if p not in pws: pws.append(p)\<close>
\<close>

definition add_pw :: "pystr list \<Rightarrow> entry \<Rightarrow> pystr list" where
  "add_pw pws i = (let p = pw i in if p \<notin> set pws then pws @ [p] else pws)"

definition unique_pws :: "entry list \<Rightarrow> pystr list" where
  "unique_pws data = foldl add_pw [] data"

text \<open>\<open>'*'*(len(i)-N if len(i) > N else 0)\<close>\<close>

definition stars :: "nat \<Rightarrow> pystr \<Rightarrow> pystr" where
  "stars N i = replicate (if length i > N then length i - N else 0) star"

text \<open>\<open>i[0:N]\<close> is \<open>take N i\<close>; \<open>i[-N:]\<close> is the whole string when it has at most
  \<open>N\<close> characters (and when \<open>N = 0\<close>), its last \<open>N\<close> characters otherwise.\<close>

definition last_chars :: "nat \<Rightarrow> pystr \<Rightarrow> pystr" where
  "last_chars N i = (if N = 0 \<or> length i \<le> N then i else drop (length i - N) i)"

definition prefix_part :: "nat \<Rightarrow> pystr \<Rightarrow> pystr" where
  "prefix_part N i = take N i @ stars N i"

definition suffix_part :: "nat \<Rightarrow> pystr \<Rightarrow> pystr" where
  "suffix_part N i = stars N i @ last_chars N i"

text \<open>
  The \<open>for N in range(1, 8): ... break ... else: parts = pws\<close> loop, as a recursion over
  the values of \<open>N\<close> still to try; the empty list is the \<open>else\<close> branch.
\<close>

fun hint_loop :: "nat list \<Rightarrow> pystr list \<Rightarrow> pystr list" where
  "hint_loop [] pws = pws"
| "hint_loop (N # Ns) pws =
     (let parts = map (prefix_part N) pws in
      if card (set parts) = length pws then parts
      else let parts = map (suffix_part N) pws in
        if card (set parts) = length pws then parts
        else hint_loop Ns pws)"

definition hint_parts :: "pystr list \<Rightarrow> pystr list" where
  "hint_parts pws = hint_loop [1..<8] pws"

text \<open>Whether the value \<open>N\<close> ends the loop, by either variant.\<close>

definition succeeds :: "pystr list \<Rightarrow> nat \<Rightarrow> bool" where
  "succeeds pws N \<longleftrightarrow>
     distinct (map (prefix_part N) pws) \<or> distinct (map (suffix_part N) pws)"

subsection \<open>Values, exceptions and the collaborators\<close>

type_synonym byte = "8 word"
type_synonym bytes = "byte list"

text \<open>The exceptions the code can meet; \<open>CardMissingError\<close> is part of \<open>slot\<close> and
  \<open>fault\<close> below.\<close>

datatype exn = TypeError | ValueError | AttributeError | OSError | AssertionError | IndexError

text \<open>
  What \<open>ujson.loads\<close> can return. A dict is kept as the list of its items, in the order
  they were written.
\<close>

datatype json =
    JNull
  | JBool bool
  | JInt int
  | JStr pystr
  | JList "json list"
  | JDict "(pystr \<times> json) list"

text \<open>Python's truth value, as \<open>if not data\<close> reads it.\<close>

fun truthy :: "json \<Rightarrow> bool" where
  "truthy JNull = False"
| "truthy (JBool b) = b"
| "truthy (JInt n) = (n \<noteq> 0)"
| "truthy (JStr s) = (s \<noteq> [])"
| "truthy (JList xs) = (xs \<noteq> [])"
| "truthy (JDict kvs) = (kvs \<noteq> [])"

definition to_json :: "entry \<Rightarrow> json" where
  "to_json e = JDict [(ustr ''xfp'', JInt (xfp e)), (ustr ''pw'', JStr (pw e))]"

definition entries_json :: "entry list \<Rightarrow> json" where
  "entries_json rs = JList (map to_json rs)"

text \<open>\<open>data.append(x)\<close>: only a list has the method.\<close>

definition py_append :: "json \<Rightarrow> json \<Rightarrow> exn + json" where
  "py_append data x = (case data of JList xs \<Rightarrow> Inr (JList (xs @ [x])) | _ \<Rightarrow> Inl AttributeError)"

text \<open>
  What the settings, the display and the seed hold while a menu item runs:
  \<open>settings.get('xfp')\<close>, \<open>settings.get('b39skip', False)\<close>, the passphrase in force,
  the stories shown by \<open>ux_show_story\<close> (text and title) and whether \<open>goto_top_menu\<close> ran.
\<close>

record world =
  settings_xfp :: int
  b39skip :: bool
  bip39_passphrase :: "pystr option"
  stories :: "(pystr \<times> pystr) list"
  at_top_menu :: bool

text \<open>
  The modules imported by \<open>pwsave.py\<close> are not part of the source at hand; they are
  parameters of the model:
  \<^item> \<open>keystream k i\<close>: byte \<open>i\<close> of the AES counter-mode key stream under key \<open>k\<close>, counted
    from the cipher's fixed initial counter (\<open>tcc.AES\<close>);
  \<^item> \<open>dumps\<close>, \<open>loads\<close>: \<open>ujson.dumps\<close> followed by the conversion to bytes, and
    \<open>ujson.loads\<close>, which raises on text it cannot parse;
  \<^item> \<open>get_id_hash\<close>: \<open>card.get_id_hash()\<close>; \<open>encryption_key\<close>:
    \<open>stash.SensitiveValues(bypass_pw=True)\<close> and its \<open>encryption_key(salt)\<close>;
  \<^item> \<open>set_bip39_passphrase\<close> (\<open>seed\<close>) returns \<open>None\<close> or an error message;
  \<^item> \<open>xfp2str\<close> (\<open>utils\<close>).
\<close>

record env =
  keystream :: "bytes \<Rightarrow> nat \<Rightarrow> byte"
  dumps :: "json \<Rightarrow> bytes"
  loads :: "bytes \<Rightarrow> exn + json"
  get_id_hash :: "exn + bytes"
  encryption_key :: "bytes \<Rightarrow> exn + bytes"
  set_bip39_passphrase :: "pystr \<Rightarrow> world \<Rightarrow> pystr option \<times> world"
  xfp2str :: "int \<Rightarrow> pystr"

subsection \<open>The cipher\<close>

datatype direction = Encrypt | Decrypt

record aes =
  aes_direction :: direction
  aes_key :: bytes
  aes_pos :: nat

text \<open>
  Modelled from the spec: \<open>tcc.AES\<close> is not under src. The spec calls it counter-mode
  stream encryption with a fresh cipher state per call, keyed by the derived key alone. The
  source passes a mode and the key and no initial counter, so every cipher object starts at
  position 0 of the key stream of its key; without a key of 16, 24 or 32 bytes the
  constructor raises.
\<close>

definition AES :: "direction \<Rightarrow> bytes option \<Rightarrow> exn + aes" where
  "AES d k =
     (case k of
        None \<Rightarrow> Inl TypeError
      | Some b \<Rightarrow>
          if length b = 16 \<or> length b = 24 \<or> length b = 32
          then Inr \<lparr>aes_direction = d, aes_key = b, aes_pos = 0\<rparr>
          else Inl ValueError)"

text \<open>
  Modelled from the spec: \<open>update\<close> of \<open>tcc.AES\<close>, not under src. In counter mode it
  combines the message with the next bytes of the key stream by exclusive or, in either
  direction, and advances the position.
\<close>

definition update :: "env \<Rightarrow> aes \<Rightarrow> bytes \<Rightarrow> bytes \<times> aes" where
  "update env c msg =
     (map2 (XOR) msg (map (keystream env (aes_key c)) [aes_pos c ..< aes_pos c + length msg]),
      c\<lparr>aes_pos := aes_pos c + length msg\<rparr>)"

subsection \<open>\<open>PassphraseSaver\<close>\<close>

text \<open>
  The state threaded through the methods: the attribute \<open>self.key\<close> (\<open>None\<close> also while
  it is unset: \<open>getattr(self, 'key', 0)\<close> is false in both cases, and \<open>_calc_key\<close> sets it
  before it is read) and the contents of the file \<open>.fseventsd.\<close> on the card, \<open>None\<close> when
  there is no such file.
\<close>

record state =
  key :: "bytes option"
  card_file :: "bytes option"

text \<open>A bytearray is true when it is not empty.\<close>

definition key_truthy :: "bytes option \<Rightarrow> bool" where
  "key_truthy k = (case k of None \<Rightarrow> False | Some b \<Rightarrow> b \<noteq> [])"

text \<open>\<open>_calc_key\<close>: any exception, the failed \<open>assert len(key) == 32\<close> included, leaves
  \<open>self.key = None\<close>.\<close>

definition calc_key :: "env \<Rightarrow> state \<Rightarrow> state" where
  "calc_key env self =
     (if key_truthy (key self) then self
      else case get_id_hash env of
          Inl e \<Rightarrow> self\<lparr>key := None\<rparr>
        | Inr salt \<Rightarrow>
            (case encryption_key env salt of
               Inl e \<Rightarrow> self\<lparr>key := None\<rparr>
             | Inr k \<Rightarrow> if length k = 32 then self\<lparr>key := Some k\<rparr> else self\<lparr>key := None\<rparr>))"

text \<open>
  \<open>_read\<close>: the cipher is made before the \<open>try\<close>, so its exception escapes; inside the
  \<open>try\<close> a missing file (\<open>open\<close> raises) and text that \<open>ujson.loads\<close> rejects give \<open>[]\<close>,
  and whatever \<open>ujson.loads\<close> accepts is returned as it is.
\<close>

definition read :: "env \<Rightarrow> state \<Rightarrow> exn + json" where
  "read env self =
     (case AES Decrypt (key self) of
        Inl e \<Rightarrow> Inl e
      | Inr decrypt \<Rightarrow>
          (case card_file self of
             None \<Rightarrow> Inr (JList [])
           | Some msg \<Rightarrow>
               (let txt = fst (update env decrypt msg) in
                case loads env txt of Inl e \<Rightarrow> Inr (JList []) | Inr v \<Rightarrow> Inr v)))"

text \<open>
  Modelled from the spec: \<open>CardSlot\<close> (\<open>files\<close>) is not under src. The spec lets the
  medium go missing when the slot is acquired and at any time of the scoped read/write
  window. So one pass of the loop of \<open>append\<close> either meets \<open>CardMissingError\<close> on
  acquiring the slot, or holds the card and may meet the missing medium at the points where
  its body touches the card:
  \<^item> \<open>InStat\<close>: in \<open>os.stat\<close> of \<open>make_menu\<close>;
  \<^item> \<open>InRead\<close>: in \<open>open(...).read()\<close> of \<open>_read\<close>, inside its \<open>try\<close>;
  \<^item> \<open>AtOpen ch\<close>: on opening the file for writing, before it is truncated;
  \<^item> \<open>InWrite n ch\<close>: after \<open>open(..., 'wb')\<close> has truncated the file and \<open>n\<close> bytes of
    the message were written.
  \<open>ch\<close> is the key that \<open>needs_microsd\<close> returns at the prompt that follows. A medium error in
  \<open>card.get_id_hash()\<close> is the case \<open>get_id_hash env = Inl e\<close>.
\<close>

datatype fault = InStat | InRead | AtOpen pystr | InWrite nat pystr

datatype slot = CardPresent "fault list" | CardMissing pystr

text \<open>
  The card as \<open>_read\<close> finds it: with the medium missing, \<open>open\<close> raises inside the
  \<open>try\<close>, as it does when there is no file.
\<close>

definition in_read :: "fault list \<Rightarrow> state \<Rightarrow> state" where
  "in_read fs self = (if InRead \<in> set fs then self\<lparr>card_file := None\<rparr> else self)"

text \<open>The first point of the pass, if any, at which the write meets the missing medium.\<close>

fun write_fault :: "fault list \<Rightarrow> fault option" where
  "write_fault [] = None"
| "write_fault (AtOpen ch # fs) = Some (AtOpen ch)"
| "write_fault (InWrite n ch # fs) = Some (InWrite n ch)"
| "write_fault (f # fs) = write_fault fs"

text \<open>
  How a pass ends. \<open>Missing ch\<close> is the body left by \<open>CardMissingError\<close>, which \<open>append\<close>
  catches; \<open>append\<close> itself ends in one of the other three ways.
\<close>

datatype outcome = Saved | Abandoned | Raised exn | Missing pystr

text \<open>The body of \<open>with CardSlot() as card\<close> in \<open>append\<close> (lines 59 to 70).\<close>

definition save :: "env \<Rightarrow> fault list \<Rightarrow> state \<Rightarrow> int \<Rightarrow> pystr \<Rightarrow> outcome \<times> state" where
  "save env fs self0 x bip39pw =
     (let self = calc_key env self0 in
      case (if key_truthy (key self) then read env (in_read fs self) else Inr (JList [])) of
        Inl e \<Rightarrow> (Raised e, self)
      | Inr data \<Rightarrow>
          (case py_append data (to_json \<lparr>xfp = x, pw = bip39pw\<rparr>) of
             Inl e \<Rightarrow> (Raised e, self)
           | Inr data' \<Rightarrow>
               (case AES Encrypt (key self) of
                  Inl e \<Rightarrow> (Raised e, self)
                | Inr encrypt \<Rightarrow>
                    (let msg = fst (update env encrypt (dumps env data'))
                     in case write_fault fs of
                          Some (AtOpen ch) \<Rightarrow> (Missing ch, self)
                        | Some (InWrite n ch) \<Rightarrow> (Missing ch, self\<lparr>card_file := Some (take n msg)\<rparr>)
                        | _ \<Rightarrow> (Saved, self\<lparr>card_file := Some msg\<rparr>)))))"

text \<open>
  \<open>append\<close>: \<open>while 1\<close> over the passes that the environment supplies. The result is
  \<open>None\<close> when the passes run out while the loop is still asking for the card; only
  \<open>CardMissingError\<close> is caught, any other exception leaves \<open>append\<close>. After the prompt
  the loop starts again from the object and the card as the failed pass left them.
\<close>

fun append :: "env \<Rightarrow> slot list \<Rightarrow> state \<Rightarrow> int \<Rightarrow> pystr \<Rightarrow> (outcome \<times> state) option" where
  "append env [] self x bip39pw = None"
| "append env (CardMissing ch # cs) self x bip39pw =
     (if ch = ustr ''x'' then Some (Abandoned, self) else append env cs self x bip39pw)"
| "append env (CardPresent fs # cs) self x bip39pw =
     (case save env fs self x bip39pw of
        (Missing ch, self') \<Rightarrow>
          if ch = ustr ''x'' then Some (Abandoned, self') else append env cs self' x bip39pw
      | r \<Rightarrow> Some r)"

text \<open>Appends in a row, each with its own passes; \<open>None\<close> unless every one is saved.\<close>

fun appends :: "env \<Rightarrow> (slot list \<times> entry) list \<Rightarrow> state \<Rightarrow> state option" where
  "appends env [] self = Some self"
| "appends env ((cs, e) # rest) self =
     (case append env cs self (xfp e) (pw e) of
        Some (Saved, self') \<Rightarrow> appends env rest self'
      | _ \<Rightarrow> None)"

text \<open>
  Passes that were cut short in writing, and passes in which the missing medium came
  between the body and the file at all (in reading or in writing).
\<close>

fun is_InWrite :: "fault \<Rightarrow> bool" where
  "is_InWrite (InWrite n ch) = True"
| "is_InWrite f = False"

fun torn :: "slot \<Rightarrow> bool" where
  "torn (CardPresent fs) = list_ex is_InWrite fs"
| "torn (CardMissing ch) = False"

fun disturbed :: "slot \<Rightarrow> bool" where
  "disturbed (CardPresent fs) = (InRead \<in> set fs \<or> list_ex is_InWrite fs)"
| "disturbed (CardMissing ch) = False"

text \<open>
  The first part of \<open>make_menu\<close> (lines 89 to 106): \<open>None\<close> for no menu, otherwise the
  data read from the card.
\<close>

definition menu_data :: "env \<Rightarrow> slot \<Rightarrow> state \<Rightarrow> (exn + json option) \<times> state" where
  "menu_data env c self =
     (case c of
        CardMissing ch \<Rightarrow> (Inr None, self)
      | CardPresent fs \<Rightarrow>
          if card_file self = None \<or> InStat \<in> set fs then (Inr None, self)
          else
            (let self1 = calc_key env self in
             if \<not> key_truthy (key self1) then (Inr None, self1)
             else case read env (in_read fs self1) of
                 Inl e \<Rightarrow> (Inl e, self1)
               | Inr data \<Rightarrow> if \<not> truthy data then (Inr None, self1) else (Inr (Some data), self1)))"

text \<open>
  The rest of \<open>make_menu\<close> works on the data as a list of entries, the shape that
  \<open>append\<close> writes. The labels of the menu, \<open>MenuItem(label, f=doit) for label in parts\<close>:
\<close>

definition menu_labels :: "entry list \<Rightarrow> pystr list" where
  "menu_labels data = hint_parts (unique_pws data)"

text \<open>\<open>data[idx].get('pw')\<close> and \<open>data[idx]\<close>, which raise beyond the end of the list.\<close>

definition selected :: "entry list \<Rightarrow> nat \<Rightarrow> exn + entry" where
  "selected data idx = (if idx < length data then Inr (data ! idx) else Inl IndexError)"

definition ux_show_story :: "pystr \<Rightarrow> pystr \<Rightarrow> world \<Rightarrow> world" where
  "ux_show_story msg title w = w\<lparr>stories := stories w @ [(msg, title)]\<rparr>"

definition goto_top_menu :: "world \<Rightarrow> world" where
  "goto_top_menu w = w\<lparr>at_top_menu := True\<rparr>"

text \<open>\<open>if err\<close>: \<open>None\<close> and the empty string are false.\<close>

definition err_truthy :: "pystr option \<Rightarrow> bool" where
  "err_truthy err = (case err of None \<Rightarrow> False | Some m \<Rightarrow> m \<noteq> [])"

text \<open>\<open>doit\<close> (lines 131 to 153), the callback of every menu item.\<close>

definition doit :: "env \<Rightarrow> entry list \<Rightarrow> nat \<Rightarrow> world \<Rightarrow> (exn + unit) \<times> world" where
  "doit env data idx w =
     (case selected data idx of
        Inl e \<Rightarrow> (Inl e, w)
      | Inr r \<Rightarrow>
          (case set_bip39_passphrase env (pw r) w of
             (err, w1) \<Rightarrow>
               if err_truthy err then (Inr (), ux_show_story (the err) (ustr ''Fail'') w1)
               else
                 (let x = settings_xfp w1;
                      w2 = (if \<not> b39skip w1 then w1\<lparr>b39skip := True\<rparr> else w1)
                  in if x \<noteq> xfp r then (Inl AssertionError, w2)
                     else (Inr (),
                       goto_top_menu
                         (ux_show_story (ustr ''Passphrase restored.'')
                            (ustr ''['' @ xfp2str env x @ ustr '']'') w2)))))"

text \<open>
  Modelled from the spec: \<open>MenuSystem\<close> and \<open>MenuItem\<close> (\<open>menu\<close>) are not under src. The
  menu collaborator shows the labels in order and invokes the callback with the index of
  the selected item.
\<close>

definition select_item :: "env \<Rightarrow> entry list \<Rightarrow> nat \<Rightarrow> world \<Rightarrow> ((exn + unit) \<times> world) option" where
  "select_item env data i w = (if i < length (menu_labels data) then Some (doit env data i w) else None)"

subsection \<open>A small environment for the worked examples\<close>

text \<open>
  The theorems below hold for every environment. Their examples run in this one: a writer
  and a parser for a subset of JSON in ASCII (code points as bytes), a key stream that
  mixes the key with the position, a key of 32 bytes made from the salt, and a
  \<open>set_bip39_passphrase\<close> that stores the passphrase and derives the fingerprint from it.
\<close>

function digits :: "nat \<Rightarrow> pystr" where
  "digits n = (if n < 10 then [48 + n] else digits (n div 10) @ [48 + n mod 10])"
  by pat_completeness auto
termination
  by (relation "measure id") auto

declare digits.simps [simp del]

fun join :: "pystr list \<Rightarrow> pystr" where
  "join [] = []"
| "join [x] = x"
| "join (x # y # r) = x @ [44, 32] @ join (y # r)"

primrec test_text :: "json \<Rightarrow> pystr" where
  "test_text JNull = ustr ''null''"
| "test_text (JBool b) = (if b then ustr ''true'' else ustr ''false'')"
| "test_text (JInt i) = (if i < 0 then 45 # digits (nat (- i)) else digits (nat i))"
| "test_text (JStr s) = 34 # s @ [34]"
| "test_text (JList xs) = 91 # join (map test_text xs) @ [93]"
| "test_text (JDict kvs) =
     123 # join (map (\<lambda>(k, t). 34 # k @ [34, 58, 32] @ t) (map (map_prod id test_text) kvs)) @ [125]"

definition test_dumps :: "json \<Rightarrow> bytes" where
  "test_dumps v = map of_nat (test_text v)"

fun skip_ws :: "pystr \<Rightarrow> pystr" where
  "skip_ws [] = []"
| "skip_ws (c # cs) = (if c = 32 then skip_ws cs else c # cs)"

fun take_digits :: "pystr \<Rightarrow> nat \<Rightarrow> nat \<times> pystr" where
  "take_digits [] a = (a, [])"
| "take_digits (c # cs) a =
     (if 48 \<le> c \<and> c \<le> 57 then take_digits cs (10 * a + (c - 48)) else (a, c # cs))"

fun take_string :: "pystr \<Rightarrow> pystr \<Rightarrow> (pystr \<times> pystr) option" where
  "take_string [] a = None"
| "take_string (c # cs) a = (if c = 34 then Some (a, cs) else take_string cs (a @ [c]))"

fun parse_value :: "nat \<Rightarrow> pystr \<Rightarrow> (json \<times> pystr) option"
  and parse_items :: "nat \<Rightarrow> pystr \<Rightarrow> json list \<Rightarrow> (json \<times> pystr) option"
  and parse_members :: "nat \<Rightarrow> pystr \<Rightarrow> (pystr \<times> json) list \<Rightarrow> (json \<times> pystr) option"
where
  "parse_value 0 s = None"
| "parse_value (Suc f) s =
     (case skip_ws s of
        [] \<Rightarrow> None
      | c # cs \<Rightarrow>
          if c = 91 then
            (case skip_ws cs of
               [] \<Rightarrow> None
             | d # ds \<Rightarrow> if d = 93 then Some (JList [], ds) else parse_items f cs [])
          else if c = 123 then
            (case skip_ws cs of
               [] \<Rightarrow> None
             | d # ds \<Rightarrow> if d = 125 then Some (JDict [], ds) else parse_members f cs [])
          else if c = 34 then
            (case take_string cs [] of None \<Rightarrow> None | Some (t, r) \<Rightarrow> Some (JStr t, r))
          else if c = 45 then
            (case cs of
               [] \<Rightarrow> None
             | d # ds \<Rightarrow>
                 if 48 \<le> d \<and> d \<le> 57
                 then (case take_digits cs 0 of (n, r) \<Rightarrow> Some (JInt (- int n), r))
                 else None)
          else if 48 \<le> c \<and> c \<le> 57 then
            (case take_digits (c # cs) 0 of (n, r) \<Rightarrow> Some (JInt (int n), r))
          else if take 4 (c # cs) = ustr ''null'' then Some (JNull, drop 4 (c # cs))
          else if take 4 (c # cs) = ustr ''true'' then Some (JBool True, drop 4 (c # cs))
          else if take 5 (c # cs) = ustr ''false'' then Some (JBool False, drop 5 (c # cs))
          else None)"
| "parse_items 0 s a = None"
| "parse_items (Suc f) s a =
     (case parse_value f s of
        None \<Rightarrow> None
      | Some (v, r) \<Rightarrow>
          (case skip_ws r of
             [] \<Rightarrow> None
           | c # cs \<Rightarrow>
               if c = 44 then parse_items f cs (a @ [v])
               else if c = 93 then Some (JList (a @ [v]), cs)
               else None))"
| "parse_members 0 s a = None"
| "parse_members (Suc f) s a =
     (case skip_ws s of
        [] \<Rightarrow> None
      | c # cs \<Rightarrow>
          if c \<noteq> 34 then None
          else
            (case take_string cs [] of
               None \<Rightarrow> None
             | Some (k, r) \<Rightarrow>
                 (case skip_ws r of
                    [] \<Rightarrow> None
                  | d # ds \<Rightarrow>
                      if d \<noteq> 58 then None
                      else
                        (case parse_value f ds of
                           None \<Rightarrow> None
                         | Some (v, r2) \<Rightarrow>
                             (case skip_ws r2 of
                                [] \<Rightarrow> None
                              | e # es \<Rightarrow>
                                  if e = 44 then parse_members f es (a @ [(k, v)])
                                  else if e = 125 then Some (JDict (a @ [(k, v)]), es)
                                  else None)))))"

definition test_loads :: "bytes \<Rightarrow> exn + json" where
  "test_loads b =
     (let s = map unat b in
      case parse_value (2 * length s + 2) s of
        None \<Rightarrow> Inl ValueError
      | Some (v, r) \<Rightarrow> if skip_ws r = [] then Inr v else Inl ValueError)"

definition test_keystream :: "bytes \<Rightarrow> nat \<Rightarrow> byte" where
  "test_keystream k i = (if k = [] then 0 else k ! (i mod length k)) XOR of_nat i"

definition test_set_passphrase :: "pystr \<Rightarrow> world \<Rightarrow> pystr option \<times> world" where
  "test_set_passphrase p w =
     (None, w\<lparr>bip39_passphrase := Some p, settings_xfp := int (sum_list p)\<rparr>)"

definition test_env :: env where
  "test_env =
     \<lparr>keystream = test_keystream, dumps = test_dumps, loads = test_loads,
      get_id_hash = Inr [1, 2, 3, 4],
      encryption_key = (\<lambda>salt. Inr (take 32 (salt @ replicate 32 9))),
      set_bip39_passphrase = test_set_passphrase,
      xfp2str = (\<lambda>x. digits (nat x))\<rparr>"

text \<open>The inputs of the worked examples.\<close>

definition test_key :: bytes where
  "test_key = take 32 ([1, 2, 3, 4] @ replicate 32 9)"

definition nokey_env :: env where
  "nokey_env = test_env\<lparr>get_id_hash := Inl OSError\<rparr>"

definition no_vault :: state where
  "no_vault = \<lparr>key = None, card_file = None\<rparr>"

definition garbled :: state where
  "garbled = \<lparr>key = None, card_file = Some [0, 1, 2]\<rparr>"

definition entry_ab :: entry where
  "entry_ab = \<lparr>xfp = 7, pw = ustr ''ab''\<rparr>"

definition entry_cd :: entry where
  "entry_cd = \<lparr>xfp = 7, pw = ustr ''cd''\<rparr>"

text \<open>The bytes stored for the list that holds \<open>entry_ab\<close> alone, under \<open>test_key\<close>.\<close>

definition blob_ab :: bytes where
  "blob_ab = [90, 120, 35, 127, 107, 124, 45, 52, 33, 55, 47, 34, 39, 116, 112, 36, 35, 56,
     57, 123, 127, 62, 98, 67]"

definition vault_ab :: state where
  "vault_ab = \<lparr>key = Some test_key, card_file = Some blob_ab\<rparr>"

definition blob_ab_cd :: bytes where
  "blob_ab_cd = [90, 120, 35, 127, 107, 124, 45, 52, 33, 55, 47, 34, 39, 116, 112, 36, 35, 56,
     57, 123, 127, 62, 98, 50, 49, 107, 49, 106, 115, 100, 53, 44, 1, 20, 13, 7, 15, 92, 88,
     12, 27, 0, 1, 65, 65, 6, 90, 123]"

definition vault_ab_cd :: state where
  "vault_ab_cd = \<lparr>key = Some test_key, card_file = Some blob_ab_cd\<rparr>"

definition two_appends :: "(slot list \<times> entry) list" where
  "two_appends =
     [([CardMissing (ustr ''y''), CardPresent [AtOpen (ustr ''y'')], CardPresent []], entry_ab),
      ([CardMissing (ustr ''y''), CardPresent []], entry_cd)]"

text \<open>
  Two appends whose second meets the missing medium while \<open>_read\<close> reads, and two whose
  second meets it after the file was opened for writing and asks for the card again.
\<close>

definition read_cut :: "(slot list \<times> entry) list" where
  "read_cut = [([CardPresent []], entry_ab), ([CardPresent [InRead]], entry_cd)]"

definition write_cut :: "(slot list \<times> entry) list" where
  "write_cut =
     [([CardPresent []], entry_ab),
      ([CardPresent [InWrite 0 (ustr ''y'')], CardPresent []], entry_cd)]"

definition duplicates :: "entry list" where
  "duplicates = [\<lparr>xfp = 194, pw = ustr ''aa''\<rparr>, \<lparr>xfp = 194, pw = ustr ''aa''\<rparr>,
     \<lparr>xfp = 196, pw = ustr ''bb''\<rparr>]"

definition test_world :: world where
  "test_world = \<lparr>settings_xfp = 0, b39skip = False, bip39_passphrase = None, stories = [],
     at_top_menu = False\<rparr>"

section \<open>Properties of the hints\<close>

lemma card_parts:
  "card (set (map f pws)) = length pws \<longleftrightarrow> distinct (map f pws)"
  by (metis card_distinct distinct_card length_map)

lemma hint_loop_step:
  "hint_loop (N # Ns) pws =
     (if distinct (map (prefix_part N) pws) then map (prefix_part N) pws
      else if distinct (map (suffix_part N) pws) then map (suffix_part N) pws
      else hint_loop Ns pws)"
  by (simp only: hint_loop.simps Let_def card_parts)

declare hint_loop.simps(2) [simp del]

lemma hint_loop_fail:
  "\<forall>N \<in> set Ns. \<not> succeeds pws N \<Longrightarrow> hint_loop Ns pws = pws"
  by (induction Ns) (simp_all add: hint_loop_step succeeds_def)

lemma hint_loop_first:
  "\<forall>M \<in> set Ms. \<not> succeeds pws M \<Longrightarrow> succeeds pws N \<Longrightarrow>
   hint_loop (Ms @ N # Ns) pws =
     (if distinct (map (prefix_part N) pws) then map (prefix_part N) pws
      else map (suffix_part N) pws)"
  by (induction Ms) (auto simp add: hint_loop_step succeeds_def)

lemma hint_loop_cases:
  "(\<exists>N \<in> set Ns. succeeds pws N \<and>
      hint_loop Ns pws =
        (if distinct (map (prefix_part N) pws) then map (prefix_part N) pws
         else map (suffix_part N) pws))
   \<or> ((\<forall>N \<in> set Ns. \<not> succeeds pws N) \<and> hint_loop Ns pws = pws)"
proof (induction Ns)
  case Nil
  show ?case by simp
next
  case (Cons N Ns)
  show ?case
  proof (cases "succeeds pws N")
    case True
    then show ?thesis by (auto simp add: hint_loop_step succeeds_def)
  next
    case False
    then have "hint_loop (N # Ns) pws = hint_loop Ns pws"
      by (simp add: hint_loop_step succeeds_def)
    with Cons False show ?thesis by auto
  qed
qed

lemma upt_split: "i \<le> N \<Longrightarrow> N < j \<Longrightarrow> [i..<j] = [i..<N] @ N # [Suc N..<j]"
  using upt_add_eq_append [of i N "j - N"] upt_conv_Cons [of N j] by simp

lemmas hint_defs =
  succeeds_def prefix_part_def suffix_part_def last_chars_def stars_def ustr_def star_def

lemma prefix_part_shape:
  "prefix_part N s = (if length s \<le> N then s else take N s @ replicate (length s - N) star)"
  by (simp add: prefix_part_def stars_def)

lemma suffix_part_shape:
  "0 < N \<Longrightarrow> suffix_part N s =
     (if length s \<le> N then s else replicate (length s - N) star @ drop (length s - N) s)"
  by (simp add: suffix_part_def stars_def last_chars_def)

text \<open>
  C2, as the code has it. For pairwise distinct secrets the hints are as many as the
  secrets, in their order, and pairwise distinct. Either some \<open>N\<close> from 1 to 7 succeeds and
  the hints are the fragments for such an \<open>N\<close>, all by the prefix or all by the suffix
  variant: a secret longer than \<open>N\<close> shows \<open>N\<close> of its characters and a star for each of
  the others, a secret of at most \<open>N\<close> characters is shown in full. Or no \<open>N\<close> from 1 to 7
  succeeds by either variant and the hints are the secrets themselves.
\<close>

theorem hint_parts_distinct:
  assumes "distinct pws"
  shows "length (hint_parts pws) = length pws \<and> distinct (hint_parts pws) \<and>
    ((\<exists>N \<in> {1..7}. succeeds pws N \<and>
        (hint_parts pws =
           map (\<lambda>s. if length s \<le> N then s
                     else take N s @ replicate (length s - N) star) pws \<or>
         hint_parts pws =
           map (\<lambda>s. if length s \<le> N then s
                     else replicate (length s - N) star @ drop (length s - N) s) pws))
     \<or> ((\<forall>N \<in> {1..7}. \<not> succeeds pws N) \<and> hint_parts pws = pws))"
proof -
  have s: "set [1..<8] = {1..7::nat}" by auto
  from hint_loop_cases [of "[1..<8]" pws]
  have c: "(\<exists>N \<in> {1..7}. succeeds pws N \<and>
        hint_parts pws =
          (if distinct (map (prefix_part N) pws) then map (prefix_part N) pws
           else map (suffix_part N) pws))
     \<or> ((\<forall>N \<in> {1..7}. \<not> succeeds pws N) \<and> hint_parts pws = pws)"
    unfolding hint_parts_def s .
  show ?thesis
  proof (cases "\<forall>N \<in> {1..7}. \<not> succeeds pws N")
    case True
    with c have "hint_parts pws = pws" by blast
    with assms True show ?thesis by simp
  next
    case False
    with c obtain N where n: "N \<in> {1..7}" "succeeds pws N"
      "hint_parts pws =
          (if distinct (map (prefix_part N) pws) then map (prefix_part N) pws
           else map (suffix_part N) pws)" by blast
    have p: "map (prefix_part N) pws =
        map (\<lambda>s. if length s \<le> N then s
                  else take N s @ replicate (length s - N) star) pws"
      by (rule map_cong [OF refl]) (rule prefix_part_shape)
    have q: "map (suffix_part N) pws =
        map (\<lambda>s. if length s \<le> N then s
                  else replicate (length s - N) star @ drop (length s - N) s) pws"
      using n(1) by (intro map_cong [OF refl] suffix_part_shape) simp
    have d: "length (hint_parts pws) = length pws \<and> distinct (hint_parts pws)"
    proof (cases "distinct (map (prefix_part N) pws)")
      case True
      with n(3) show ?thesis by simp
    next
      case False
      with n(2,3) show ?thesis by (simp add: succeeds_def)
    qed
    have "hint_parts pws =
           map (\<lambda>s. if length s \<le> N then s
                     else take N s @ replicate (length s - N) star) pws \<or>
         hint_parts pws =
           map (\<lambda>s. if length s \<le> N then s
                     else replicate (length s - N) star @ drop (length s - N) s) pws"
      using n(3) p q by (cases "distinct (map (prefix_part N) pws)") simp_all
    with n(1,2) d show ?thesis by blast
  qed
qed

theorem hint_parts_distinct_witness:
  "distinct [ustr ''alpha'', ustr ''apple'', ustr ''azure''] \<and>
   length (hint_parts [ustr ''alpha'', ustr ''apple'', ustr ''azure'']) = 3 \<and>
   distinct (hint_parts [ustr ''alpha'', ustr ''apple'', ustr ''azure''])"
proof -
  have d: "distinct [ustr ''alpha'', ustr ''apple'', ustr ''azure'']"
    by (simp add: ustr_def)
  from hint_parts_distinct [OF d] d show ?thesis by simp
qed

text \<open>
  The claim itself fails where it says that the secrets come back unmasked only when no
  \<open>N\<close> succeeds: of \<open>aa\<close>, \<open>ab\<close>, \<open>ba\<close> the loop stops at \<open>N = 2\<close>, where nothing is
  left to mask, and returns the three secrets in full.
\<close>

theorem short_secrets_in_full:
  "distinct [ustr ''aa'', ustr ''ab'', ustr ''ba''] \<and>
   succeeds [ustr ''aa'', ustr ''ab'', ustr ''ba''] 2 \<and>
   hint_parts [ustr ''aa'', ustr ''ab'', ustr ''ba''] = [ustr ''aa'', ustr ''ab'', ustr ''ba'']"
  by code_simp

text \<open>
  C3. When some \<open>N\<close> from 1 to 7 succeeds, the hints are those of the smallest such \<open>N\<close>:
  the prefix fragments when they are pairwise distinct, the suffix fragments only
  otherwise. No larger \<open>N\<close> and no later variant is returned.
\<close>

theorem hint_parts_minimal:
  assumes "N \<in> {1..7}" and "succeeds pws N" and "\<forall>M \<in> {1..<N}. \<not> succeeds pws M"
  shows "hint_parts pws =
    (if distinct (map (prefix_part N) pws) then map (prefix_part N) pws
     else map (suffix_part N) pws)"
proof -
  from assms(1) have "[1..<8] = [1..<N] @ N # [Suc N..<8]"
    using upt_split [of 1 N 8] by simp
  moreover from assms(3) have "\<forall>M \<in> set [1..<N]. \<not> succeeds pws M" by simp
  ultimately show ?thesis
    using hint_loop_first [OF _ assms(2)] by (simp add: hint_parts_def)
qed

theorem hint_parts_minimal_witness:
  "(2::nat) \<in> {1..7} \<and> succeeds [ustr ''alpha'', ustr ''apple'', ustr ''azure''] 2 \<and>
   \<not> succeeds [ustr ''alpha'', ustr ''apple'', ustr ''azure''] 1 \<and>
   hint_parts [ustr ''alpha'', ustr ''apple'', ustr ''azure''] =
     [ustr ''al***'', ustr ''ap***'', ustr ''az***'']"
proof -
  have a: "(2::nat) \<in> {1..7}" by simp
  have b: "succeeds [ustr ''alpha'', ustr ''apple'', ustr ''azure''] 2"
    by (simp add: hint_defs)
  have n: "\<not> succeeds [ustr ''alpha'', ustr ''apple'', ustr ''azure''] 1"
    by (simp add: hint_defs)
  moreover have "{1..<2} = {1::nat}" by auto
  ultimately have c: "\<forall>M \<in> {1..<2}. \<not> succeeds [ustr ''alpha'', ustr ''apple'', ustr ''azure''] M"
    by simp
  have "hint_parts [ustr ''alpha'', ustr ''apple'', ustr ''azure''] =
     [ustr ''al***'', ustr ''ap***'', ustr ''az***'']"
    using hint_parts_minimal [OF a b c] by (simp add: hint_defs)
  with a b n show ?thesis by blast
qed

section \<open>The menu and the entry it applies\<close>

lemma foldl_add_pw_distinct:
  "distinct pws \<Longrightarrow> distinct (foldl add_pw pws data)"
  by (induction data arbitrary: pws) (simp_all add: add_pw_def Let_def)

lemma foldl_add_pw_set:
  "set (foldl add_pw pws data) = set pws \<union> pw ` set data"
  by (induction data arbitrary: pws) (auto simp add: add_pw_def Let_def)

lemma unique_pws_distinct: "distinct (unique_pws data)"
  by (simp add: unique_pws_def foldl_add_pw_distinct)

lemma unique_pws_set: "set (unique_pws data) = pw ` set data"
  by (simp add: unique_pws_def foldl_add_pw_set)

lemma foldl_add_pw_no_duplicates:
  "distinct (pws @ map pw data) \<Longrightarrow> foldl add_pw pws data = pws @ map pw data"
  by (induction data arbitrary: pws) (auto simp add: add_pw_def Let_def)

text \<open>
  When no secret is stored twice, the labels stand in the order of the stored entries and
  item \<open>i\<close> applies the secret its label was made from.
\<close>

lemma unique_pws_no_duplicates:
  "distinct (map pw data) \<Longrightarrow> unique_pws data = map pw data"
  using foldl_add_pw_no_duplicates [of "[]" data] by (simp add: unique_pws_def)

lemma selected_no_duplicates:
  assumes "distinct (map pw data)" and "i < length (menu_labels data)"
    and "hint_parts (unique_pws data) = map f (unique_pws data)"
  shows "\<exists>r. selected data i = Inr r \<and> menu_labels data ! i = f (pw r)"
  using assms by (simp add: unique_pws_no_duplicates menu_labels_def selected_def)

text \<open>
  C1. The claim: item \<open>i\<close> of the menu applies the secret from which label \<open>i\<close> was made,
  also when a secret is stored more than once. The labels are made from the deduplicated
  secrets, but \<open>doit\<close> reads \<open>data[idx]\<close>, the list as stored. With \<open>aa\<close> stored twice before
  \<open>bb\<close> the labels are \<open>a*\<close> and \<open>b*\<close>, and the item labelled \<open>b*\<close> (index 1) applies
  \<open>aa\<close> and reports success.
\<close>

theorem duplicates_apply_other_secret:
  "menu_labels duplicates = [ustr ''a*'', ustr ''b*''] \<and>
   unique_pws duplicates = [ustr ''aa'', ustr ''bb''] \<and>
   map_option (\<lambda>r. (fst r, bip39_passphrase (snd r)))
     (select_item test_env duplicates 1 test_world) = Some (Inr (), Some (ustr ''aa''))"
  by code_simp

section \<open>The cipher and the stored list\<close>

lemma xor_twice: "length ks = length m \<Longrightarrow> map2 (XOR) (map2 (XOR) m ks) ks = (m :: bytes)"
proof (induction m arbitrary: ks)
  case Nil
  then show ?case by simp
next
  case (Cons b m)
  then obtain c cs where "ks = c # cs" by (cases ks) auto
  with Cons show ?case by (simp add: xor.assoc)
qed

lemma AES_Some:
  "AES d (Some k) = Inr c \<longleftrightarrow>
     (length k = 16 \<or> length k = 24 \<or> length k = 32) \<and>
     c = \<lparr>aes_direction = d, aes_key = k, aes_pos = 0\<rparr>"
  by (auto simp add: AES_def)

lemma AES_None: "AES d None = Inl TypeError"
  by (simp add: AES_def)

lemma AES_Inr_key: "AES d k = Inr c \<Longrightarrow> k = Some (aes_key c) \<and> aes_pos c = 0 \<and> key_truthy k"
  by (cases k) (auto simp add: AES_def key_truthy_def split: if_splits)

lemma update_twice:
  assumes "aes_key c1 = aes_key c2" and "aes_pos c1 = aes_pos c2"
  shows "fst (update env c2 (fst (update env c1 m))) = m"
  using assms by (simp add: update_def xor_twice)

lemma read_written:
  assumes "AES Encrypt (Some k) = Inr enc"
    and "loads env (dumps env d) = Inr d"
  shows "read env \<lparr>key = Some k, card_file = Some (fst (update env enc (dumps env d)))\<rparr> = Inr d"
proof -
  from assms(1) have l: "length k = 16 \<or> length k = 24 \<or> length k = 32"
    and e: "enc = \<lparr>aes_direction = Encrypt, aes_key = k, aes_pos = 0\<rparr>"
    by (simp_all add: AES_Some)
  let ?dec = "\<lparr>aes_direction = Decrypt, aes_key = k, aes_pos = 0\<rparr>"
  from l have a: "AES Decrypt (Some k) = Inr ?dec" by (simp add: AES_Some)
  have "fst (update env ?dec (fst (update env enc (dumps env d)))) = dumps env d"
    by (rule update_twice) (simp_all add: e)
  with a assms(2) show ?thesis by (simp add: read_def)
qed

lemma codec_ab:
  "loads test_env (dumps test_env (entries_json [entry_ab])) = Inr (entries_json [entry_ab])"
  by code_simp

lemma codec_ab_cd:
  "loads test_env (dumps test_env (entries_json [entry_ab, entry_cd]))
     = Inr (entries_json [entry_ab, entry_cd])"
  by code_simp

text \<open>
  C4. Under a key of 32 bytes the cipher of \<open>append\<close> and a fresh cipher of \<open>_read\<close> undo
  each other on the serialized list, and \<open>_read\<close> of the stored bytes returns the list of
  entries, in order and with all fields, whenever \<open>ujson.loads\<close> inverts \<open>ujson.dumps\<close>
  on that list. The list may be empty.
\<close>

theorem round_trip:
  assumes "length k = 32"
  shows "\<exists>enc dec.
    AES Encrypt (Some k) = Inr enc \<and> AES Decrypt (Some k) = Inr dec \<and>
    fst (update env dec (fst (update env enc (dumps env (entries_json rs)))))
      = dumps env (entries_json rs) \<and>
    (loads env (dumps env (entries_json rs)) = Inr (entries_json rs) \<longrightarrow>
     read env
       \<lparr>key = Some k, card_file = Some (fst (update env enc (dumps env (entries_json rs))))\<rparr>
       = Inr (entries_json rs))"
proof -
  let ?enc = "\<lparr>aes_direction = Encrypt, aes_key = k, aes_pos = 0\<rparr>"
  let ?dec = "\<lparr>aes_direction = Decrypt, aes_key = k, aes_pos = 0\<rparr>"
  from assms have e: "AES Encrypt (Some k) = Inr ?enc" and d: "AES Decrypt (Some k) = Inr ?dec"
    by (simp_all add: AES_Some)
  have "fst (update env ?dec (fst (update env ?enc (dumps env (entries_json rs)))))
      = dumps env (entries_json rs)"
    by (rule update_twice) simp_all
  with e d read_written [OF e] show ?thesis by blast
qed

theorem round_trip_witness:
  "length test_key = 32 \<and>
   (\<exists>enc. AES Encrypt (Some test_key) = Inr enc \<and>
      read test_env
        \<lparr>key = Some test_key,
           card_file = Some (fst (update test_env enc
             (dumps test_env (entries_json [entry_ab, entry_cd]))))\<rparr>
        = Inr (entries_json [entry_ab, entry_cd]))"
proof -
  have l: "length test_key = 32" by (simp add: test_key_def)
  from round_trip [OF l, of test_env "[entry_ab, entry_cd]"] codec_ab_cd l
  show ?thesis by blast
qed

section \<open>Appending\<close>

lemma write_fault_InWrite:
  "write_fault fs = Some (InWrite n ch) \<Longrightarrow> list_ex is_InWrite fs"
  by (induction fs rule: write_fault.induct) auto

lemma write_fault_cases:
  "write_fault fs = None \<or> (\<exists>ch. write_fault fs = Some (AtOpen ch)) \<or>
   (\<exists>n ch. write_fault fs = Some (InWrite n ch))"
  by (induction fs rule: write_fault.induct) auto

lemma calc_key_file: "card_file (calc_key env self) = card_file self"
  by (simp add: calc_key_def split: sum.splits)

lemma calc_key_truthy: "key_truthy (key self) \<Longrightarrow> calc_key env self = self"
  by (simp add: calc_key_def)

lemma calc_key_idem: "calc_key env (calc_key env self) = calc_key env self"
  by (auto simp add: calc_key_def key_truthy_def split: sum.splits)

lemma key_None_not_truthy: "\<not> key_truthy None"
  by (simp add: key_truthy_def)

lemma in_read_key: "key (in_read fs self) = key self"
  by (simp add: in_read_def)

lemma in_read_undisturbed: "InRead \<notin> set fs \<Longrightarrow> in_read fs self = self"
  by (simp add: in_read_def)

lemma save_calc_key: "save env fs (calc_key env self) x p = save env fs self x p"
  by (simp add: save_def calc_key_idem)

text \<open>What a saving pass has done: read all, add one, write all.\<close>

lemma save_Saved:
  assumes "save env fs self x p = (Saved, self')"
  shows "\<exists>k enc xs.
    key (calc_key env self) = Some k \<and> AES Encrypt (Some k) = Inr enc \<and>
    read env (in_read fs (calc_key env self)) = Inr (JList xs) \<and>
    self' = \<lparr>key = Some k, card_file =
      Some (fst (update env enc (dumps env (JList (xs @ [to_json \<lparr>xfp = x, pw = p\<rparr>])))))\<rparr>"
proof -
  let ?s = "calc_key env self"
  from assms obtain enc where enc: "AES Encrypt (key ?s) = Inr enc"
    by (auto simp add: save_def Let_def split: sum.splits if_splits)
  then have k: "key ?s = Some (aes_key enc)" and t: "key_truthy (key ?s)"
    using AES_Inr_key by blast+
  from assms t obtain data where d: "read env (in_read fs ?s) = Inr data"
    by (auto simp add: save_def Let_def split: sum.splits)
  from assms t d obtain xs where x: "data = JList xs"
    by (cases data) (auto simp add: save_def Let_def py_append_def split: sum.splits)
  from assms t d x enc have "self' = ?s\<lparr>card_file :=
      Some (fst (update env enc (dumps env (JList (xs @ [to_json \<lparr>xfp = x, pw = p\<rparr>])))))\<rparr>"
    by (auto simp add: save_def Let_def py_append_def split: option.splits fault.splits)
  with k have "self' = \<lparr>key = Some (aes_key enc), card_file =
      Some (fst (update env enc (dumps env (JList (xs @ [to_json \<lparr>xfp = x, pw = p\<rparr>])))))\<rparr>"
    by (cases ?s) simp
  with k enc d x show ?thesis by auto
qed

text \<open>A pass that meets the missing medium before the file is truncated changes nothing
  but the cached key.\<close>

lemma save_Missing:
  assumes "save env fs self x p = (Missing ch, s1)" and "\<not> list_ex is_InWrite fs"
  shows "s1 = calc_key env self"
proof -
  from assms(2) have "\<And>n c. write_fault fs \<noteq> Some (InWrite n c)"
    using write_fault_InWrite by blast
  with assms(1) show ?thesis
    by (auto simp add: save_def Let_def split: sum.splits option.splits fault.splits)
qed

text \<open>An append that ends with \<open>Saved\<close>, with no pass cut short in writing, is one saving
  pass on the card as the append found it.\<close>

lemma append_Saved:
  assumes "\<forall>c \<in> set cs. \<not> torn c"
    and "append env cs self x p = Some (Saved, self')"
  shows "\<exists>fs. CardPresent fs \<in> set cs \<and> save env fs self x p = (Saved, self')"
  using assms
proof (induction cs arbitrary: self)
  case Nil
  then show ?case by simp
next
  case (Cons c cs)
  show ?case
  proof (cases c)
    case (CardMissing ch)
    with Cons.prems have "append env cs self x p = Some (Saved, self')"
      by (auto split: if_splits)
    with Cons.IH Cons.prems(1) show ?thesis by auto
  next
    case (CardPresent fs)
    obtain out s1 where s: "save env fs self x p = (out, s1)" by (cases "save env fs self x p")
    show ?thesis
    proof (cases out)
      case Saved
      with s Cons.prems(2) CardPresent show ?thesis by auto
    next
      case Abandoned
      with s Cons.prems(2) CardPresent show ?thesis by simp
    next
      case (Raised e)
      with s Cons.prems(2) CardPresent show ?thesis by simp
    next
      case (Missing ch)
      from Cons.prems(1) CardPresent have "\<not> list_ex is_InWrite fs" by simp
      with s Missing have s1: "s1 = calc_key env self" using save_Missing by blast
      from s Missing Cons.prems(2) CardPresent
      have "append env cs s1 x p = Some (Saved, self')" by (auto split: if_splits)
      with Cons.IH [of s1] Cons.prems(1) obtain fs' where
        "CardPresent fs' \<in> set cs" "save env fs' s1 x p = (Saved, self')" by auto
      with s1 show ?thesis by (auto simp add: save_calc_key)
    qed
  qed
qed

text \<open>However often the card is missing on acquiring the slot, the pass that finds it
  runs the body once.\<close>

lemma append_retries:
  "\<forall>c \<in> set cs. \<exists>ch. c = CardMissing ch \<and> ch \<noteq> ustr ''x'' \<Longrightarrow>
   append env (cs @ CardPresent [] # cs') self x p = Some (save env [] self x p)"
proof (induction cs)
  case Nil
  show ?case by (cases "save env [] self x p") (auto simp add: save_def Let_def split: sum.splits)
next
  case (Cons c cs)
  then show ?case by auto
qed

lemma read_key_truthy: "read env self = Inr v \<Longrightarrow> key_truthy (key self)"
  by (auto simp add: read_def split: sum.splits dest: AES_Inr_key)

lemma read_no_file:
  "card_file self = None \<Longrightarrow> read env self = Inr v \<Longrightarrow> v = JList []"
  by (auto simp add: read_def split: sum.splits)

lemma save_step:
  assumes s: "save env fs self x p = (Saved, self')" and u: "InRead \<notin> set fs"
    and i: "(rs = [] \<and> card_file self = None) \<or> read env self = Inr (entries_json rs)"
    and c: "loads env (dumps env (entries_json (rs @ [\<lparr>xfp = x, pw = p\<rparr>])))
              = Inr (entries_json (rs @ [\<lparr>xfp = x, pw = p\<rparr>]))"
  shows "read env self' = Inr (entries_json (rs @ [\<lparr>xfp = x, pw = p\<rparr>]))"
proof -
  from save_Saved [OF s] u obtain k enc xs where
    k: "key (calc_key env self) = Some k" and e: "AES Encrypt (Some k) = Inr enc" and
    r: "read env (calc_key env self) = Inr (JList xs)" and
    s': "self' = \<lparr>key = Some k, card_file =
      Some (fst (update env enc (dumps env (JList (xs @ [to_json \<lparr>xfp = x, pw = p\<rparr>])))))\<rparr>"
    by (auto simp add: in_read_undisturbed)
  have "JList xs = entries_json rs"
  proof (cases "read env self = Inr (entries_json rs)")
    case True
    then have "calc_key env self = self" by (simp add: read_key_truthy calc_key_truthy)
    with r True show ?thesis by simp
  next
    case False
    with i have "rs = []" and "card_file (calc_key env self) = None"
      by (simp_all add: calc_key_file)
    with r show ?thesis using read_no_file by (fastforce simp add: entries_json_def)
  qed
  then have "JList (xs @ [to_json \<lparr>xfp = x, pw = p\<rparr>]) = entries_json (rs @ [\<lparr>xfp = x, pw = p\<rparr>])"
    by (simp add: entries_json_def)
  with read_written [OF e c] s' show ?thesis by simp
qed

lemma entry_eta: "\<lparr>xfp = xfp e, pw = pw e\<rparr> = e"
  by simp

lemma appends_inv:
  assumes "appends env ops self = Some self'"
    and "\<forall>o1 \<in> set ops. \<forall>c \<in> set (fst o1). \<not> disturbed c"
    and "(rs = [] \<and> card_file self = None) \<or> read env self = Inr (entries_json rs)"
    and "\<forall>n. 0 < n \<and> n \<le> length ops \<longrightarrow>
           loads env (dumps env (entries_json (rs @ map snd (take n ops))))
             = Inr (entries_json (rs @ map snd (take n ops)))"
    and "ops \<noteq> []"
  shows "read env self' = Inr (entries_json (rs @ map snd ops))"
  using assms
proof (induction ops arbitrary: self rs)
  case Nil
  then show ?case by simp
next
  case (Cons o1 rest)
  obtain cs e where o1: "o1 = (cs, e)" by (cases o1)
  from Cons.prems(1) o1 obtain s1 where
    a: "append env cs self (xfp e) (pw e) = Some (Saved, s1)" and
    r: "appends env rest s1 = Some self'"
    by (auto split: option.splits outcome.splits)
  from Cons.prems(2) o1 have d: "\<forall>c \<in> set cs. \<not> disturbed c" by simp
  have "\<forall>c \<in> set cs. \<not> torn c"
  proof
    fix c assume "c \<in> set cs"
    with d have "\<not> disturbed c" by blast
    then show "\<not> torn c" by (cases c) simp_all
  qed
  from append_Saved [OF this a] obtain fs where
    f: "CardPresent fs \<in> set cs" and s: "save env fs self (xfp e) (pw e) = (Saved, s1)"
    by blast
  from f d have u: "InRead \<notin> set fs" by fastforce
  from Cons.prems(4) [rule_format, of 1] o1
  have c1: "loads env (dumps env (entries_json (rs @ [e]))) = Inr (entries_json (rs @ [e]))"
    by simp
  from save_step [OF s u Cons.prems(3)] c1
  have s1: "read env s1 = Inr (entries_json (rs @ [e]))" by (simp add: entry_eta)
  show ?case
  proof (cases "rest = []")
    case True
    with r s1 o1 show ?thesis by simp
  next
    case False
    have "\<forall>n. 0 < n \<and> n \<le> length rest \<longrightarrow>
           loads env (dumps env (entries_json ((rs @ [e]) @ map snd (take n rest))))
             = Inr (entries_json ((rs @ [e]) @ map snd (take n rest)))"
    proof (intro allI impI)
      fix n assume "0 < n \<and> n \<le> length rest"
      with Cons.prems(4) [rule_format, of "Suc n"] o1
      show "loads env (dumps env (entries_json ((rs @ [e]) @ map snd (take n rest))))
             = Inr (entries_json ((rs @ [e]) @ map snd (take n rest)))" by simp
    qed
    moreover from Cons.prems(2) have "\<forall>o1 \<in> set rest. \<forall>c \<in> set (fst o1). \<not> disturbed c"
      by simp
    ultimately show ?thesis using Cons.IH [OF r _ _ _ False, of "rs @ [e]"] s1 o1 by simp
  qed
qed

text \<open>
  Where the invariant of the appends does hold: from a card without the file, after any
  number \<open>N > 0\<close> of appends that each ended with \<open>Saved\<close>, with the medium missing only on
  acquiring the slot or on opening the file for writing, \<open>_read\<close> returns the \<open>N\<close> appended
  entries in the order of the appends, provided \<open>ujson.loads\<close> inverts \<open>ujson.dumps\<close> on
  the lists written on the way.
\<close>

lemma append_invariant_undisturbed:
  assumes "card_file self = None" and "ops \<noteq> []"
    and "\<forall>o1 \<in> set ops. \<forall>c \<in> set (fst o1). \<not> disturbed c"
    and "appends env ops self = Some self'"
    and "\<forall>n. 0 < n \<and> n \<le> length ops \<longrightarrow>
           loads env (dumps env (entries_json (map snd (take n ops))))
             = Inr (entries_json (map snd (take n ops)))"
  shows "read env self' = Inr (entries_json (map snd ops))"
  using appends_inv [OF assms(4,3), of "[]"] assms(1,2,5) by simp

lemma append_invariant_undisturbed_example:
  "\<exists>s. appends test_env two_appends no_vault = Some s \<and>
      read test_env s = Inr (entries_json [entry_ab, entry_cd])"
proof -
  have a: "card_file no_vault = None" by (simp add: no_vault_def)
  have b: "two_appends \<noteq> []" by (simp add: two_appends_def)
  have u: "\<forall>o1 \<in> set two_appends. \<forall>c \<in> set (fst o1). \<not> disturbed c"
    by (simp add: two_appends_def)
  have "appends test_env two_appends no_vault \<noteq> None" by code_simp
  then obtain s where s: "appends test_env two_appends no_vault = Some s" by blast
  have c: "\<forall>n. 0 < n \<and> n \<le> length two_appends \<longrightarrow>
     loads test_env (dumps test_env (entries_json (map snd (take n two_appends))))
       = Inr (entries_json (map snd (take n two_appends)))"
  proof (intro allI impI)
    fix n assume "0 < n \<and> n \<le> length two_appends"
    then have "n = 1 \<or> n = 2" by (auto simp add: two_appends_def)
    then show "loads test_env (dumps test_env (entries_json (map snd (take n two_appends))))
       = Inr (entries_json (map snd (take n two_appends)))"
      using codec_ab codec_ab_cd by (auto simp add: two_appends_def)
  qed
  have "read test_env s = Inr (entries_json (map snd two_appends))"
    using append_invariant_undisturbed [OF a b u s c] .
  then have "read test_env s = Inr (entries_json [entry_ab, entry_cd])"
    by (simp add: two_appends_def)
  with s show ?thesis by blast
qed

text \<open>
  C5. The claim: after \<open>N\<close> appends that ended with \<open>Saved\<close> the file decrypts to the \<open>N\<close>
  appended entries, whatever retries after a missing medium came between. When the medium
  is missing while \<open>_read\<close> reads, the bare \<open>except\<close> of \<open>_read\<close> takes the error for an
  unreadable file: the pass goes on with the empty list, writes the new entry alone and
  ends with \<open>Saved\<close>, with no retry. When the medium is missing after the file was opened
  for writing, the retry reads the truncated file and again writes the new entry alone.
  Either way the first of two saved entries is gone.
\<close>

theorem append_loses_entries:
  "map_option (read test_env) (appends test_env read_cut no_vault)
     = Some (Inr (entries_json [entry_cd])) \<and>
   map_option (read test_env) (appends test_env write_cut no_vault)
     = Some (Inr (entries_json [entry_cd])) \<and>
   map snd read_cut = [entry_ab, entry_cd] \<and> map snd write_cut = [entry_ab, entry_cd]"
  by code_simp



section \<open>Failures\<close>

text \<open>When the key cannot be computed, \<open>make_menu\<close> gives no menu and raises nothing,
  and the file is left as it was.\<close>

lemma key_unavailable_no_menu:
  assumes "key (calc_key env self) = None"
  shows "fst (menu_data env c self) = Inr None \<and>
    card_file (snd (menu_data env c self)) = card_file self"
  using assms by (cases c) (simp_all add: menu_data_def Let_def key_None_not_truthy calc_key_file)

text \<open>
  \<open>append\<close> meets the missing key in the read only: it takes the empty list for the data
  and goes on to make the cipher with no key, outside any handler. What comes of the pass
  is what the constructor does with no key: its exception leaves \<open>append\<close>, or the new
  entry alone would be written.
\<close>

lemma save_without_key:
  assumes "key (calc_key env self) = None"
  shows "save env [] self x p =
    (case AES Encrypt None of
       Inl e \<Rightarrow> (Raised e, calc_key env self)
     | Inr encrypt \<Rightarrow>
         (Saved, (calc_key env self)\<lparr>card_file :=
            Some (fst (update env encrypt
              (dumps env (JList [to_json \<lparr>xfp = x, pw = p\<rparr>]))))\<rparr>))"
  using assms
  by (simp add: save_def Let_def key_None_not_truthy py_append_def split: sum.splits)

text \<open>
  C6. The claim: with the key unavailable, reading yields the empty list and \<open>append\<close>
  comes to a stop without writing, and in neither case does an exception escape. With the
  key unavailable and the card present, \<open>append\<close> ends with the exception of the cipher's
  constructor, which nothing in \<open>append\<close> catches.
\<close>

theorem key_unavailable_append_raises:
  "key (calc_key nokey_env no_vault) = None \<and>
   fst (menu_data nokey_env (CardPresent []) garbled) = Inr None \<and>
   append nokey_env [CardPresent []] no_vault 7 (ustr ''ab'')
     = Some (Raised TypeError, no_vault)"
  by code_simp

text \<open>With a key of 32 bytes \<open>_read\<close> raises nothing, and it returns what \<open>ujson.loads\<close> accepts.\<close>

lemma read_never_raises:
  assumes "key self = Some k" and "length k = 32"
  shows "\<exists>v. read env self = Inr v"
  using assms by (auto simp add: read_def AES_def Let_def split: option.splits sum.splits)

lemma read_empty:
  assumes "AES Decrypt (key self) = Inr dec"
    and "card_file self = None \<or>
      (\<exists>msg err. card_file self = Some msg \<and> loads env (fst (update env dec msg)) = Inl err)"
  shows "read env self = Inr (JList [])"
  using assms by (auto simp add: read_def Let_def)

lemma read_accepted:
  assumes "AES Decrypt (key self) = Inr dec" and "card_file self = Some msg"
    and "loads env (fst (update env dec msg)) = Inr v"
  shows "read env self = Inr v"
  using assms by (simp add: read_def Let_def)

text \<open>
  C7. The claim: with a valid key \<open>_read\<close> returns the empty list whenever the decrypted
  content is not the list of entries. \<open>_read\<close> returns whatever \<open>ujson.loads\<close> accepts:
  a file of the one byte that decrypts to the text \<open>5\<close> makes it return the number 5, and
  the first part of \<open>make_menu\<close> passes that number on as the data of the menu.
\<close>

theorem read_returns_number:
  "length test_key = 32 \<and>
   fst (update test_env \<lparr>aes_direction = Decrypt, aes_key = test_key, aes_pos = 0\<rparr> [0x34])
     = [0x35] \<and>
   read test_env \<lparr>key = Some test_key, card_file = Some [0x34]\<rparr> = Inr (JInt 5) \<and>
   fst (menu_data test_env (CardPresent []) \<lparr>key = None, card_file = Some [0x34]\<rparr>)
     = Inr (Some (JInt 5))"
  by code_simp

text \<open>
  C8, as the code has it. When the passphrase was applied without an error message and the
  fingerprint in the settings then differs from the one stored with the selected entry,
  \<open>doit\<close> ends with the \<open>AssertionError\<close> of its \<open>assert\<close>: no story is shown, the top
  menu is not entered, and the passphrase of that entry stays applied. The entry compared is
  the entry applied.
\<close>

theorem doit_mismatch:
  assumes "selected data idx = Inr r"
    and "set_bip39_passphrase env (pw r) w = (err, w1)"
    and "\<not> err_truthy err"
    and "settings_xfp w1 \<noteq> xfp r"
  shows "doit env data idx w = (Inl AssertionError, w1\<lparr>b39skip := True\<rparr>) \<and>
    stories (snd (doit env data idx w)) = stories w1 \<and>
    at_top_menu (snd (doit env data idx w)) = at_top_menu w1"
proof -
  have "(if \<not> b39skip w1 then w1\<lparr>b39skip := True\<rparr> else w1) = w1\<lparr>b39skip := True\<rparr>"
    by simp
  with assms show ?thesis by (simp add: doit_def Let_def)
qed

theorem doit_mismatch_witness:
  "selected [entry_ab] 0 = Inr entry_ab \<and>
   settings_xfp (test_world\<lparr>bip39_passphrase := Some (ustr ''ab''), settings_xfp := 195\<rparr>)
     \<noteq> xfp entry_ab \<and>
   doit test_env [entry_ab] 0 test_world =
     (Inl AssertionError,
      test_world\<lparr>bip39_passphrase := Some (ustr ''ab''), settings_xfp := 195, b39skip := True\<rparr>)"
proof -
  let ?w1 = "test_world\<lparr>bip39_passphrase := Some (ustr ''ab''), settings_xfp := 195\<rparr>"
  have a: "selected [entry_ab] 0 = Inr entry_ab" by (simp add: selected_def)
  have b: "set_bip39_passphrase test_env (pw entry_ab) test_world = (None, ?w1)" by code_simp
  have c: "\<not> err_truthy None" by (simp add: err_truthy_def)
  have d: "settings_xfp ?w1 \<noteq> xfp entry_ab" by (simp add: entry_ab_def)
  from doit_mismatch [OF a b c d] a d show ?thesis by simp
qed

text \<open>
  The claim itself fails: on a mismatch nothing is shown through the display, and the
  exception leaves \<open>doit\<close>.
\<close>

theorem doit_mismatch_no_story:
  "xfp entry_ab = 7 \<and>
   settings_xfp (snd (set_bip39_passphrase test_env (pw entry_ab) test_world)) = 195 \<and>
   fst (doit test_env [entry_ab] 0 test_world) = Inl AssertionError \<and>
   stories (snd (doit test_env [entry_ab] 0 test_world)) = []"
  by code_simp

text \<open>
  C9, as the code has it. Every write builds its cipher from the key alone, at position 0
  of the key stream: two writes under the same key combine their plaintexts with the same
  key stream, and equal plaintexts are stored as equal bytes. This holds of every two
  saving passes, whatever met them in reading.
\<close>

theorem nonce_fixed:
  assumes "save env fs1 s1 x1 p1 = (Saved, s1')" and "save env fs2 s2 x2 p2 = (Saved, s2')"
    and "key s1' = key s2'"
  shows "\<exists>k xs1 xs2 t1 t2.
    key s1' = Some k \<and>
    read env (in_read fs1 (calc_key env s1)) = Inr (JList xs1) \<and>
    read env (in_read fs2 (calc_key env s2)) = Inr (JList xs2) \<and>
    t1 = dumps env (JList (xs1 @ [to_json \<lparr>xfp = x1, pw = p1\<rparr>])) \<and>
    t2 = dumps env (JList (xs2 @ [to_json \<lparr>xfp = x2, pw = p2\<rparr>])) \<and>
    card_file s1' = Some (map2 (XOR) t1 (map (keystream env k) [0 ..< length t1])) \<and>
    card_file s2' = Some (map2 (XOR) t2 (map (keystream env k) [0 ..< length t2])) \<and>
    (t1 = t2 \<longrightarrow> card_file s1' = card_file s2')"
proof -
  from save_Saved [OF assms(1)] obtain k1 enc1 xs1 where
    a: "AES Encrypt (Some k1) = Inr enc1"
      "read env (in_read fs1 (calc_key env s1)) = Inr (JList xs1)"
      "s1' = \<lparr>key = Some k1, card_file =
        Some (fst (update env enc1 (dumps env (JList (xs1 @ [to_json \<lparr>xfp = x1, pw = p1\<rparr>])))))\<rparr>"
    by blast
  from save_Saved [OF assms(2)] obtain k2 enc2 xs2 where
    b: "AES Encrypt (Some k2) = Inr enc2"
      "read env (in_read fs2 (calc_key env s2)) = Inr (JList xs2)"
      "s2' = \<lparr>key = Some k2, card_file =
        Some (fst (update env enc2 (dumps env (JList (xs2 @ [to_json \<lparr>xfp = x2, pw = p2\<rparr>])))))\<rparr>"
    by blast
  from a(3) b(3) assms(3) have k: "k2 = k1" by simp
  from a(1) have e1: "aes_key enc1 = k1" "aes_pos enc1 = 0" by (simp_all add: AES_Some)
  from b(1) k have e2: "aes_key enc2 = k1" "aes_pos enc2 = 0" by (simp_all add: AES_Some)
  from a b e1 e2 show ?thesis by (simp add: update_def)
qed

theorem nonce_fixed_witness:
  "save test_env [] no_vault 7 (ustr ''ab'') = (Saved, vault_ab) \<and>
   save test_env [] vault_ab 7 (ustr ''cd'') = (Saved, vault_ab_cd) \<and>
   key vault_ab = key vault_ab_cd \<and>
   (\<exists>k t1 t2.
      card_file vault_ab = Some (map2 (XOR) t1 (map (keystream test_env k) [0 ..< length t1])) \<and>
      card_file vault_ab_cd = Some (map2 (XOR) t2 (map (keystream test_env k) [0 ..< length t2])))"
proof -
  have a: "save test_env [] no_vault 7 (ustr ''ab'') = (Saved, vault_ab)" by code_simp
  have b: "save test_env [] vault_ab 7 (ustr ''cd'') = (Saved, vault_ab_cd)" by code_simp
  have c: "key vault_ab = key vault_ab_cd" by (simp add: vault_ab_def vault_ab_cd_def)
  from nonce_fixed [OF a b c] a b c show ?thesis by blast
qed

text \<open>
  The claim itself fails: a first write of an entry, and a second write of the same entry
  after the file was removed, store the same bytes.
\<close>

theorem same_entry_same_bytes:
  "save test_env [] no_vault 7 (ustr ''ab'') = (Saved, vault_ab) \<and>
   save test_env [] (vault_ab\<lparr>card_file := None\<rparr>) 7 (ustr ''ab'') = (Saved, vault_ab) \<and>
   card_file vault_ab = Some blob_ab"
  by code_simp

end
